theory Spec2Isabelle
  imports Main "HOL-Library.Word"
begin

section \<open>Python values and exceptions\<close>

text \<open>
  A Python \<open>str\<close> is represented by the list of its UTF-8 bytes and a \<open>bytes\<close>
  object by the list of its bytes, so both are \<open>string\<close>; the constructors keep the two
  Python types apart. Python floats are a type parameter \<open>'f\<close>: the code never computes
  with them, the store client only writes their \<open>repr\<close>, which is passed as a function.
\<close>

datatype 'f pyval = PNone | PText string | PBytes string | PInt int | PFloat 'f

text \<open>
  Exceptions: \<open>DataError\<close> and \<open>ResponseError\<close> are raised by the store client,
  \<open>NameError\<close> by the interpreter for an unbound name, \<open>Raised\<close> is any other
  exception (of a wrapped operation or of a builtin), with its message.
\<close>

datatype exn = DataError | ResponseError | NameError | Raised string

section \<open>Decimal integers\<close>

definition digit_char :: "nat \<Rightarrow> char" where
  "digit_char d = ''0123456789'' ! (d mod 10)"

fun show_nat :: "nat \<Rightarrow> string" where
  "show_nat n = (if n < 10 then [digit_char n] else show_nat (n div 10) @ [digit_char (n mod 10)])"

declare show_nat.simps [simp del]

definition show_int :: "int \<Rightarrow> string" where
  "show_int i = (if i < 0 then CHR ''-'' # show_nat (nat (- i)) else show_nat (nat i))"

definition is_digit :: "char \<Rightarrow> bool" where
  "is_digit c = (c \<in> set ''0123456789'')"

definition digit_val :: "char \<Rightarrow> nat" where
  "digit_val c = of_char c - 48"

text \<open>
  The store accepts as an integer a string of decimal digits with no leading zero
  (\<open>0\<close> itself apart), with an optional minus sign in front of a non-zero number.
\<close>

definition parse_nat :: "string \<Rightarrow> nat option" where
  "parse_nat s =
     (if s \<noteq> [] \<and> list_all is_digit s \<and> (hd s \<noteq> CHR ''0'' \<or> length s = 1)
      then Some (foldl (\<lambda>a c. 10 * a + digit_val c) 0 s) else None)"

definition parse_int :: "string \<Rightarrow> int option" where
  "parse_int s =
     (case s of
        [] \<Rightarrow> None
      | c # t \<Rightarrow>
          if c = CHR ''-''
          then (case parse_nat t of
                  None \<Rightarrow> None
                | Some n \<Rightarrow> if n = 0 then None else Some (- int n))
          else map_option int (parse_nat s))"

section \<open>The store\<close>

text \<open>
  Modelled from the spec: the store client and the store behind it, an external
  collaborator that is not among the files of the repository. The model has the
  capability set the code uses: \<open>get\<close>, \<open>set\<close>, \<open>setex\<close>, \<open>incr\<close>, \<open>rpush\<close>,
  \<open>lrange\<close> and \<open>flushdb\<close>. A key holds a byte string or a list of byte strings,
  with an optional expiry time; time is counted in seconds. The integers of \<open>incr\<close>
  are unbounded here. A command on a key that holds the wrong kind of value, and
  \<open>incr\<close> on a string that is not an integer, fail with \<open>ResponseError\<close>.
\<close>

type_synonym key = string

datatype rvalue = RString string | RList "string list"

record redis =
  db :: "key \<Rightarrow> (rvalue \<times> nat option) option"
  clock :: nat

text \<open>An entry is visible until its expiry time has passed.\<close>

definition lookup :: "redis \<Rightarrow> key \<Rightarrow> rvalue option" where
  "lookup r k =
     (case db r k of
        None \<Rightarrow> None
      | Some (v, None) \<Rightarrow> Some v
      | Some (v, Some t) \<Rightarrow> if clock r \<le> t then Some v else None)"

definition expiry :: "redis \<Rightarrow> key \<Rightarrow> nat option" where
  "expiry r k = (case lookup r k of None \<Rightarrow> None | Some _ \<Rightarrow> (case db r k of None \<Rightarrow> None | Some (_, e) \<Rightarrow> e))"

text \<open>Time passing between two commands.\<close>

definition elapse :: "nat \<Rightarrow> redis \<Rightarrow> redis" where
  "elapse d r = r\<lparr>clock := clock r + d\<rparr>"

definition redis_flushdb :: "redis \<Rightarrow> redis" where
  "redis_flushdb r = r\<lparr>db := (\<lambda>k. None)\<rparr>"

definition redis_get :: "redis \<Rightarrow> key \<Rightarrow> exn + string option" where
  "redis_get r k =
     (case lookup r k of
        None \<Rightarrow> Inr None
      | Some (RString s) \<Rightarrow> Inr (Some s)
      | Some (RList xs) \<Rightarrow> Inl ResponseError)"

definition redis_set :: "redis \<Rightarrow> key \<Rightarrow> string \<Rightarrow> redis" where
  "redis_set r k b = r\<lparr>db := (db r)(k \<mapsto> (RString b, None))\<rparr>"

definition redis_setex :: "redis \<Rightarrow> key \<Rightarrow> nat \<Rightarrow> string \<Rightarrow> exn + redis" where
  "redis_setex r k ttl b =
     (if ttl = 0 then Inl ResponseError
      else Inr (r\<lparr>db := (db r)(k \<mapsto> (RString b, Some (clock r + ttl)))\<rparr>))"

text \<open>The integer \<open>incr\<close> would read under a key: 0 when the key is absent.\<close>

definition counter :: "redis \<Rightarrow> key \<Rightarrow> int option" where
  "counter r k =
     (case lookup r k of
        None \<Rightarrow> Some 0
      | Some (RString s) \<Rightarrow> parse_int s
      | Some (RList xs) \<Rightarrow> None)"

definition redis_incr :: "redis \<Rightarrow> key \<Rightarrow> exn + (int \<times> redis)" where
  "redis_incr r k =
     (case counter r k of
        None \<Rightarrow> Inl ResponseError
      | Some n \<Rightarrow> Inr (n + 1, r\<lparr>db := (db r)(k \<mapsto> (RString (show_int (n + 1)), expiry r k))\<rparr>))"

definition redis_rpush :: "redis \<Rightarrow> key \<Rightarrow> string \<Rightarrow> exn + (nat \<times> redis)" where
  "redis_rpush r k b =
     (case lookup r k of
        None \<Rightarrow> Inr (1, r\<lparr>db := (db r)(k \<mapsto> (RList [b], None))\<rparr>)
      | Some (RList xs) \<Rightarrow>
          Inr (length xs + 1, r\<lparr>db := (db r)(k \<mapsto> (RList (xs @ [b]), expiry r k))\<rparr>)
      | Some (RString s) \<Rightarrow> Inl ResponseError)"

text \<open>
  \<open>lrange\<close> with the store's indices: a negative index counts from the end, and the
  range is cut to the list. An absent key is the empty list.
\<close>

definition list_range :: "'a list \<Rightarrow> int \<Rightarrow> int \<Rightarrow> 'a list" where
  "list_range xs start stop =
     (let n = int (length xs);
          s = (if start < 0 then max (n + start) 0 else start);
          e = min (if stop < 0 then n + stop else stop) (n - 1)
      in if s > e then [] else take (nat (e - s + 1)) (drop (nat s) xs))"

definition redis_lrange :: "redis \<Rightarrow> key \<Rightarrow> int \<Rightarrow> int \<Rightarrow> exn + string list" where
  "redis_lrange r k start stop =
     (case lookup r k of
        None \<Rightarrow> Inr []
      | Some (RList xs) \<Rightarrow> Inr (list_range xs start stop)
      | Some (RString s) \<Rightarrow> Inl ResponseError)"

text \<open>
  The client encodes a value before it sends it: bytes as they are, text as its UTF-8
  bytes, an integer or a float as its \<open>repr\<close>; any other value is a \<open>DataError\<close>,
  raised before the store is reached.
\<close>

fun encode :: "('f \<Rightarrow> string) \<Rightarrow> 'f pyval \<Rightarrow> exn + string" where
  "encode frepr (PBytes b) = Inr b"
| "encode frepr (PInt i) = Inr (show_int i)"
| "encode frepr (PFloat x) = Inr (frepr x)"
| "encode frepr (PText s) = Inr s"
| "encode frepr PNone = Inl DataError"

section \<open>exercise.py: the Cache class\<close>

text \<open>
  A \<open>Cache\<close> object has the single field \<open>_redis\<close>, so the object is the state of the
  store it is connected to. A method takes the object and its arguments and returns its
  result, or the exception it raised, with the state it left behind.
\<close>

type_synonym ('a, 'b) pymethod = "redis \<Rightarrow> 'a \<Rightarrow> (exn + 'b) \<times> redis"

definition Cache_init :: "redis \<Rightarrow> redis" where
  "Cache_init r = redis_flushdb r"

text \<open>\<open>Cache.get\<close> only reads the store, so it returns no state.\<close>

definition Cache_get :: "redis \<Rightarrow> key \<Rightarrow> (string \<Rightarrow> exn + 'f pyval) option \<Rightarrow> exn + 'f pyval" where
  "Cache_get self k fn =
     (case redis_get self k of
        Inl e \<Rightarrow> Inl e
      | Inr None \<Rightarrow> Inr PNone
      | Inr (Some data) \<Rightarrow> (case fn of None \<Rightarrow> Inr (PBytes data) | Some f \<Rightarrow> f data))"

text \<open>
  \<open>uuid.uuid4()\<close> draws 128 random bits; the draw is an argument of the model.
  \<open>str\<close> of a UUID is its 32 hexadecimal digits in groups of 8, 4, 4, 4 and 12.
\<close>

definition hex_digit :: "nat \<Rightarrow> char" where
  "hex_digit d = ''0123456789abcdef'' ! (d mod 16)"

definition hex32 :: "nat \<Rightarrow> string" where
  "hex32 n = map (\<lambda>i. hex_digit (n div 16 ^ (31 - i))) [0..<32]"

definition str_uuid :: "128 word \<Rightarrow> string" where
  "str_uuid u =
     (let h = hex32 (unat u)
      in take 8 h @ ''-'' @ take 4 (drop 8 h) @ ''-'' @ take 4 (drop 12 h) @ ''-''
           @ take 4 (drop 16 h) @ ''-'' @ drop 20 h)"

text \<open>
  \<open>count_calls\<close>: the key is the \<open>__qualname__\<close> of the method, an attribute the
  model passes beside the method.
\<close>

definition count_calls :: "('a, 'b) pymethod \<Rightarrow> string \<Rightarrow> ('a, 'b) pymethod" where
  "count_calls method qualname self args =
     (let key = qualname
      in case redis_incr self key of
           Inl e \<Rightarrow> (Inl e, self)
         | Inr (n, self') \<Rightarrow> method self' args)"

text \<open>
  \<open>call_history\<close>: \<open>str_args\<close> is Python's \<open>str\<close> of the tuple of positional
  arguments.
\<close>

definition call_history ::
  "('a \<Rightarrow> string) \<Rightarrow> ('f \<Rightarrow> string) \<Rightarrow> ('a, 'f pyval) pymethod \<Rightarrow> string \<Rightarrow> ('a, 'f pyval) pymethod" where
  "call_history str_args frepr method qualname self args =
     (let key_inputs = qualname @ '':inputs'';
          key_outputs = qualname @ '':outputs''
      in case redis_rpush self key_inputs (str_args args) of
           Inl e \<Rightarrow> (Inl e, self)
         | Inr (n, self1) \<Rightarrow>
             (case method self1 args of
                (Inl e, self2) \<Rightarrow> (Inl e, self2)
              | (Inr output, self2) \<Rightarrow>
                  (case encode frepr output of
                     Inl e \<Rightarrow> (Inl e, self2)
                   | Inr b \<Rightarrow>
                       (case redis_rpush self2 key_outputs b of
                          Inl e \<Rightarrow> (Inl e, self2)
                        | Inr (m, self3) \<Rightarrow> (Inr output, self3)))))"

text \<open>
  The body of \<open>Cache.store\<close>; its arguments are the random draw and the data. The
  method as the class has it is the body under \<open>count_calls\<close>, and under nothing else.
\<close>

definition store_raw :: "('f \<Rightarrow> string) \<Rightarrow> (128 word \<times> 'f pyval, 'f pyval) pymethod" where
  "store_raw frepr self args =
     (let key = str_uuid (fst args)
      in case encode frepr (snd args) of
           Inl e \<Rightarrow> (Inl e, self)
         | Inr b \<Rightarrow> (Inr (PText key), redis_set self key b))"

definition Cache_store :: "('f \<Rightarrow> string) \<Rightarrow> (128 word \<times> 'f pyval, 'f pyval) pymethod" where
  "Cache_store frepr = count_calls (store_raw frepr) ''Cache.store''"

text \<open>
  \<open>get_str\<close> and \<open>get_int\<close> are \<open>get\<close> with a coercion; \<open>bytes.decode\<close> and
  \<open>int\<close> are builtins, passed as functions.
\<close>

definition Cache_get_str :: "(string \<Rightarrow> exn + string) \<Rightarrow> redis \<Rightarrow> key \<Rightarrow> exn + 'f pyval" where
  "Cache_get_str decode self k =
     Cache_get self k (Some (\<lambda>d. case decode d of Inl e \<Rightarrow> Inl e | Inr s \<Rightarrow> Inr (PText s)))"

definition Cache_get_int :: "(string \<Rightarrow> exn + int) \<Rightarrow> redis \<Rightarrow> key \<Rightarrow> exn + 'f pyval" where
  "Cache_get_int py_int self k =
     Cache_get self k (Some (\<lambda>d. case py_int d of Inl e \<Rightarrow> Inl e | Inr i \<Rightarrow> Inr (PInt i)))"

text \<open>
  A caller making one call after the other, whether a call raised or not; the results are
  collected in call order.
\<close>

fun calls :: "('a, 'b) pymethod \<Rightarrow> redis \<Rightarrow> 'a list \<Rightarrow> (exn + 'b) list \<times> redis" where
  "calls m r [] = ([], r)"
| "calls m r (a # as) =
     (case m r a of (x, r') \<Rightarrow> (case calls m r' as of (xs, r'') \<Rightarrow> (x # xs, r'')))"

text \<open>The calls a user of a \<open>Cache\<close> object can make, and a run of them.\<close>

datatype 'f cache_op =
    Store "128 word" "'f pyval"
  | Get key "(string \<Rightarrow> exn + 'f pyval) option"

fun cache_call :: "('f \<Rightarrow> string) \<Rightarrow> redis \<Rightarrow> 'f cache_op \<Rightarrow> redis" where
  "cache_call frepr self (Store u data) = snd (Cache_store frepr self (u, data))"
| "cache_call frepr self (Get k fn) = self"

definition cache_run :: "('f \<Rightarrow> string) \<Rightarrow> redis \<Rightarrow> 'f cache_op list \<Rightarrow> redis" where
  "cache_run frepr r cs = foldl (cache_call frepr) (Cache_init r) cs"

subsection \<open>replay\<close>

text \<open>
  \<open>replay\<close> reads the store through the global name \<open>cache\<close>. The argument
  \<open>cache\<close> of the model is the binding of that name in the globals of the module,
  \<open>None\<close> when the name is unbound. The builtins \<open>eval\<close>, \<open>str\<close> (of an evaluated
  argument tuple) and \<open>bytes.decode\<close> are passed as functions. The result is what
  \<open>replay\<close> returned or raised, with the lines it printed.
\<close>

fun eval_all :: "(string \<Rightarrow> exn + 'a) \<Rightarrow> string list \<Rightarrow> exn + 'a list" where
  "eval_all py_eval [] = Inr []"
| "eval_all py_eval (s # ss) =
     (case py_eval s of
        Inl e \<Rightarrow> Inl e
      | Inr a \<Rightarrow> (case eval_all py_eval ss of Inl e \<Rightarrow> Inl e | Inr as \<Rightarrow> Inr (a # as)))"

fun print_calls ::
  "('a \<Rightarrow> string) \<Rightarrow> (string \<Rightarrow> exn + string) \<Rightarrow> string \<Rightarrow> ('a \<times> string) list \<Rightarrow> string list
     \<Rightarrow> (exn + unit) \<times> string list" where
  "print_calls py_str decode qualname [] out = (Inr (), out)"
| "print_calls py_str decode qualname ((args, output) # rest) out =
     (case decode output of
        Inl e \<Rightarrow> (Inl e, out)
      | Inr s \<Rightarrow>
          print_calls py_str decode qualname rest
            (out @ [qualname @ py_str args @ '' -> '' @ s]))"

definition replay ::
  "redis option \<Rightarrow> (string \<Rightarrow> exn + 'a) \<Rightarrow> ('a \<Rightarrow> string) \<Rightarrow> (string \<Rightarrow> exn + string) \<Rightarrow> string
     \<Rightarrow> (exn + unit) \<times> string list" where
  "replay cache py_eval py_str decode qualname =
     (let key_inputs = qualname @ '':inputs'';
          key_outputs = qualname @ '':outputs''
      in case cache of
           None \<Rightarrow> (Inl NameError, [])
         | Some r \<Rightarrow>
             (case redis_lrange r key_inputs 0 (- 1) of
                Inl e \<Rightarrow> (Inl e, [])
              | Inr raw \<Rightarrow>
                  (case eval_all py_eval raw of
                     Inl e \<Rightarrow> (Inl e, [])
                   | Inr inputs \<Rightarrow>
                       (case redis_lrange r key_outputs 0 (- 1) of
                          Inl e \<Rightarrow> (Inl e, [])
                        | Inr outputs \<Rightarrow>
                            print_calls py_str decode qualname (zip inputs outputs)
                              [qualname @ '' was called '' @ show_nat (length inputs) @ '' times:'']))))"

text \<open>
  The module binds the names \<open>redis\<close>, \<open>uuid\<close>, \<open>Union\<close>, \<open>Callable\<close>,
  \<open>wraps\<close>, \<open>count_calls\<close>, \<open>call_history\<close>, \<open>Cache\<close> and \<open>replay\<close>. No
  statement of it binds \<open>cache\<close>.
\<close>

definition module_cache :: "redis option" where
  "module_cache = None"

section \<open>web.py: the memoizing fetcher\<close>

text \<open>
  The state is the store behind the global \<open>redis_client\<close> and the list of the URLs
  that \<open>requests.get\<close> was called with, in call order. The web is a function \<open>http\<close>
  from a URL to the seconds the request takes and the text of the response, or the
  exception \<open>requests.get\<close> raises. The client decodes what it reads; the text it wrote
  reads back as it was.
\<close>

record world =
  redis_client :: redis
  requests :: "string list"

definition get_page_raw :: "(string \<Rightarrow> nat \<times> (exn + string)) \<Rightarrow> world \<Rightarrow> string \<Rightarrow> (exn + string) \<times> world" where
  "get_page_raw http w url =
     (snd (http url),
      w\<lparr>redis_client := elapse (fst (http url)) (redis_client w), requests := requests w @ [url]\<rparr>)"

definition cache_and_count_access ::
  "(world \<Rightarrow> string \<Rightarrow> (exn + string) \<times> world) \<Rightarrow> world \<Rightarrow> string \<Rightarrow> (exn + string) \<times> world" where
  "cache_and_count_access func w url =
     (let count_key = ''count:'' @ url
      in case redis_incr (redis_client w) count_key of
           Inl e \<Rightarrow> (Inl e, w)
         | Inr (current_count, r1) \<Rightarrow>
             (let w1 = w\<lparr>redis_client := r1\<rparr>;
                  cache_key = ''cache:'' @ url;
                  miss = (case func w1 url of
                            (Inl e, w2) \<Rightarrow> (Inl e, w2)
                          | (Inr result, w2) \<Rightarrow>
                              (case redis_setex (redis_client w2) cache_key 10 result of
                                 Inl e \<Rightarrow> (Inl e, w2)
                               | Inr r3 \<Rightarrow> (Inr result, w2\<lparr>redis_client := r3\<rparr>)))
              in case redis_get r1 cache_key of
                   Inl e \<Rightarrow> (Inl e, w1)
                 | Inr None \<Rightarrow> miss
                 | Inr (Some cached_result) \<Rightarrow>
                     if cached_result \<noteq> [] then (Inr cached_result, w1) else miss))"

definition get_page :: "(string \<Rightarrow> nat \<times> (exn + string)) \<Rightarrow> world \<Rightarrow> string \<Rightarrow> (exn + string) \<times> world" where
  "get_page http = cache_and_count_access (get_page_raw http)"

text \<open>Time passing between two calls of the fetcher.\<close>

definition wait :: "nat \<Rightarrow> world \<Rightarrow> world" where
  "wait d w = w\<lparr>redis_client := elapse d (redis_client w)\<rparr>"

section \<open>Decimal integers read back\<close>

lemma digit_char_is_digit: "is_digit (digit_char d)"
  unfolding is_digit_def digit_char_def by (rule nth_mem) simp

lemma digit_val_digit_char: "d < 10 \<Longrightarrow> digit_val (digit_char d) = d"
proof -
  assume "d < 10"
  then have "d \<in> {0,1,2,3,4,5,6,7,8,9}" by auto
  then show ?thesis by (auto simp: digit_val_def digit_char_def)
qed

lemma digit_char_zero: "d < 10 \<Longrightarrow> digit_char d = CHR ''0'' \<longleftrightarrow> d = 0"
proof -
  assume "d < 10"
  then have "d \<in> {0,1,2,3,4,5,6,7,8,9}" by auto
  then show ?thesis by (auto simp: digit_char_def)
qed

lemma show_nat_nonempty: "show_nat n \<noteq> []"
  by (subst show_nat.simps) simp

lemma show_nat_digits: "list_all is_digit (show_nat n)"
  by (induction n rule: show_nat.induct) (subst show_nat.simps, simp add: digit_char_is_digit)

lemma show_nat_value: "foldl (\<lambda>a c. 10 * a + digit_val c) 0 (show_nat n) = n"
proof (induction n rule: show_nat.induct)
  case (1 n)
  show ?case
  proof (cases "n < 10")
    case True
    then show ?thesis by (subst show_nat.simps) (simp add: digit_val_digit_char)
  next
    case False
    with 1 show ?thesis by (subst show_nat.simps) (simp add: digit_val_digit_char)
  qed
qed

lemma show_nat_hd: "hd (show_nat n) = CHR ''0'' \<Longrightarrow> n = 0"
proof (induction n rule: show_nat.induct)
  case (1 n)
  show ?case
  proof (cases "n < 10")
    case True
    with 1(2) show ?thesis by (subst (asm) show_nat.simps) (simp add: digit_char_zero)
  next
    case False
    from 1(2) have "hd (show_nat (n div 10)) = CHR ''0''"
      by (subst (asm) show_nat.simps) (simp add: False show_nat_nonempty)
    with 1(1) False have "n div 10 = 0" by simp
    with False show ?thesis by simp
  qed
qed

lemma show_nat_0: "show_nat 0 = ''0''"
  by (subst show_nat.simps) (simp add: digit_char_def)

lemma parse_nat_show_nat: "parse_nat (show_nat n) = Some n"
proof -
  have "hd (show_nat n) \<noteq> CHR ''0'' \<or> length (show_nat n) = 1"
  proof (cases "n = 0")
    case True then show ?thesis by (simp add: show_nat_0)
  next
    case False then show ?thesis using show_nat_hd by blast
  qed
  then show ?thesis
    by (simp add: parse_nat_def show_nat_nonempty show_nat_digits show_nat_value)
qed

lemma show_nat_no_minus: "hd (show_nat n) \<noteq> CHR ''-''"
proof -
  have "is_digit (hd (show_nat n))"
    using show_nat_digits [of n] show_nat_nonempty [of n]
    by (cases "show_nat n") simp_all
  then show ?thesis by (auto simp: is_digit_def)
qed

lemma parse_int_show_int: "parse_int (show_int i) = Some i"
proof (cases "i < 0")
  case True
  then show ?thesis by (simp add: parse_int_def show_int_def parse_nat_show_nat)
next
  case False
  obtain c t where ct: "show_nat (nat i) = c # t"
    using show_nat_nonempty [of "nat i"] by (cases "show_nat (nat i)") auto
  with show_nat_no_minus [of "nat i"] have "c \<noteq> CHR ''-''" by simp
  with False ct parse_nat_show_nat [of "nat i"] show ?thesis
    by (simp add: parse_int_def show_int_def)
qed


section \<open>Facts about the store\<close>

lemma lookup_fresh [simp]: "lookup (r\<lparr>db := (db r)(k \<mapsto> (v, None))\<rparr>) k = Some v"
  by (simp add: lookup_def)

lemma lookup_other [simp]: "k' \<noteq> k \<Longrightarrow> lookup (r\<lparr>db := (db r)(k \<mapsto> x)\<rparr>) k' = lookup r k'"
  by (simp add: lookup_def split: option.splits prod.splits)

lemma lookup_no_expiry: "db r k = Some (v, None) \<Longrightarrow> lookup r k = Some v"
  by (simp add: lookup_def)

lemma expiry_absent: "lookup r k = None \<Longrightarrow> expiry r k = None"
  by (simp add: expiry_def)

lemma expiry_no_expiry: "db r k = Some (v, None) \<Longrightarrow> expiry r k = None"
  by (simp add: expiry_def lookup_def)

lemma counter_absent: "lookup r k = None \<Longrightarrow> counter r k = Some 0"
  by (simp add: counter_def)

lemma counter_stored: "db r k = Some (RString (show_int c), None) \<Longrightarrow> counter r k = Some c"
  by (simp add: counter_def lookup_no_expiry parse_int_show_int)

lemma redis_incr_absent:
  "lookup r k = None \<Longrightarrow>
     redis_incr r k = Inr (1, r\<lparr>db := (db r)(k \<mapsto> (RString (show_int 1), None))\<rparr>)"
  by (simp add: redis_incr_def counter_absent expiry_absent)

lemma redis_incr_stored:
  "db r k = Some (RString (show_int c), None) \<Longrightarrow>
     redis_incr r k = Inr (c + 1, r\<lparr>db := (db r)(k \<mapsto> (RString (show_int (c + 1)), None))\<rparr>)"
  by (simp add: redis_incr_def counter_stored expiry_no_expiry)

section \<open>Reading a key that holds nothing\<close>

lemma lookup_None_iff:
  "lookup r k = None \<longleftrightarrow> (db r k = None \<or> (\<exists>v t. db r k = Some (v, Some t) \<and> t < clock r))"
  by (auto simp: lookup_def split: option.splits prod.splits)

text \<open>
  C8. A key that was never written, or whose entry has expired, holds nothing; for such
  a key and any coercion function, given or not, \<open>Cache.get\<close> returns \<open>None\<close>: it
  raises nothing, and the result does not depend on the function, which is not applied.
\<close>

theorem Cache_get_absent:
  "db r k = None \<or> (\<exists>v t. db r k = Some (v, Some t) \<and> t < clock r) \<Longrightarrow> Cache_get r k fn = Inr PNone"
  by (simp add: Cache_get_def redis_get_def lookup_None_iff [symmetric])

theorem Cache_get_absent_witness:
  "(db \<lparr>db = (\<lambda>k. None)(''k'' \<mapsto> (RString ''v'', Some 3)), clock = 5\<rparr> ''k'' = None
     \<or> (\<exists>v t. db \<lparr>db = (\<lambda>k. None)(''k'' \<mapsto> (RString ''v'', Some 3)), clock = 5\<rparr> ''k'' = Some (v, Some t)
          \<and> t < clock \<lparr>db = (\<lambda>k. None)(''k'' \<mapsto> (RString ''v'', Some 3)), clock = 5\<rparr>))
   \<and> Cache_get \<lparr>db = (\<lambda>k. None)(''k'' \<mapsto> (RString ''v'', Some 3)), clock = 5\<rparr> ''k''
       (Some (\<lambda>d. Inl (Raised ''ValueError'') :: exn + unit pyval)) = Inr PNone"
proof -
  have h: "db \<lparr>db = (\<lambda>k. None)(''k'' \<mapsto> (RString ''v'', Some 3)), clock = 5\<rparr> ''k'' = None
     \<or> (\<exists>v t. db \<lparr>db = (\<lambda>k. None)(''k'' \<mapsto> (RString ''v'', Some 3)), clock = 5\<rparr> ''k'' = Some (v, Some t)
          \<and> t < clock \<lparr>db = (\<lambda>k. None)(''k'' \<mapsto> (RString ''v'', Some 3)), clock = 5\<rparr>)"
    by simp
  show ?thesis using h Cache_get_absent [OF h] by simp
qed

section \<open>The invocation counter\<close>

lemma count_calls_absent:
  "lookup r k = None \<Longrightarrow>
     count_calls m k r a = m (r\<lparr>db := (db r)(k \<mapsto> (RString (show_int 1), None))\<rparr>) a"
  by (simp add: count_calls_def redis_incr_absent)

lemma count_calls_stored:
  "db r k = Some (RString (show_int c), None) \<Longrightarrow>
     count_calls m k r a = m (r\<lparr>db := (db r)(k \<mapsto> (RString (show_int (c + 1)), None))\<rparr>) a"
  by (simp add: count_calls_def redis_incr_stored)

lemma calls_count_stored:
  assumes frame: "\<And>r a. db (snd (m r a)) k = db r k"
  shows "db r k = Some (RString (show_int c), None) \<Longrightarrow>
     db (snd (calls (count_calls m k) r as)) k = Some (RString (show_int (c + int (length as))), None)"
proof (induction as arbitrary: r c)
  case Nil
  then show ?case by simp
next
  case (Cons a as)
  let ?r1 = "snd (count_calls m k r a)"
  have "db ?r1 k = Some (RString (show_int (c + 1)), None)"
    using Cons.prems by (simp add: count_calls_stored frame)
  from Cons.IH [OF this] show ?case
    by (simp add: split_beta add.assoc)
qed

lemma calls_count_absent:
  assumes frame: "\<And>r a. db (snd (m r a)) k = db r k"
    and fresh: "lookup r k = None"
  shows "counter (snd (calls (count_calls m k) r as)) k = Some (int (length as))"
proof (cases as)
  case Nil
  with fresh show ?thesis by (simp add: counter_absent)
next
  case (Cons a as')
  let ?r1 = "snd (count_calls m k r a)"
  have "db ?r1 k = Some (RString (show_int 1), None)"
    using fresh by (simp add: count_calls_absent frame)
  from calls_count_stored [of m k, OF frame this, of as'] Cons show ?thesis
    by (simp add: split_beta counter_stored add.commute)
qed

text \<open>
  C4, as the code has it. Take an operation that does not itself write the key of its
  counter (it does not flush the store and does not call itself through its counted
  name), wrapped by \<open>count_calls\<close>, and a store in which that key is absent. After \<open>n\<close> invocations,
  whatever each of them returned or raised, the counter under the identity of the
  operation reads \<open>n\<close> (0 when absent). The increment comes before the operation runs:
  the next invocation is the operation run on a store whose counter already reads
  \<open>n + 1\<close>, so it is counted also when the operation raises.
\<close>

theorem count_calls_counter:
  assumes frame: "\<And>r a. db (snd (m r a)) qualname = db r qualname"
    and fresh: "lookup r qualname = None"
  shows "counter (snd (calls (count_calls m qualname) r as)) qualname = Some (int (length as))
       \<and> (\<exists>r1. counter r1 qualname = Some (int (length as) + 1)
              \<and> count_calls m qualname (snd (calls (count_calls m qualname) r as)) a = m r1 a)"
proof -
  let ?r = "snd (calls (count_calls m qualname) r as)"
  have n: "counter ?r qualname = Some (int (length as))"
    using frame fresh by (rule calls_count_absent)
  have "\<exists>r1. counter r1 qualname = Some (int (length as) + 1) \<and> count_calls m qualname ?r a = m r1 a"
  proof (cases as)
    case Nil
    with fresh have "count_calls m qualname ?r a
        = m (r\<lparr>db := (db r)(qualname \<mapsto> (RString (show_int 1), None))\<rparr>) a"
      by (simp add: count_calls_absent)
    moreover have "counter (r\<lparr>db := (db r)(qualname \<mapsto> (RString (show_int 1), None))\<rparr>) qualname = Some 1"
      by (simp add: counter_stored)
    ultimately show ?thesis using Nil by auto
  next
    case (Cons a' as')
    let ?r1 = "snd (count_calls m qualname r a')"
    have "db ?r1 qualname = Some (RString (show_int 1), None)"
      using fresh by (simp add: count_calls_absent frame)
    from calls_count_stored [of m qualname, OF frame this, of as']
    have d: "db ?r qualname = Some (RString (show_int (int (length as))), None)"
      using Cons by (simp add: split_beta add.commute)
    have "count_calls m qualname ?r a
        = m (?r\<lparr>db := (db ?r)(qualname \<mapsto> (RString (show_int (int (length as) + 1)), None))\<rparr>) a"
      using d by (rule count_calls_stored)
    moreover have "counter (?r\<lparr>db := (db ?r)(qualname \<mapsto> (RString (show_int (int (length as) + 1)), None))\<rparr>) qualname
        = Some (int (length as) + 1)"
      by (simp add: counter_stored)
    ultimately show ?thesis by blast
  qed
  with n show ?thesis by simp
qed


theorem count_calls_counter_witness:
  "(\<forall>r a. db (snd ((\<lambda>r a. (Inl (Raised ''boom''), r)) r (a :: unit))) ''f'' = db r ''f'')
   \<and> lookup \<lparr>db = (\<lambda>k. None), clock = 0\<rparr> ''f'' = None
   \<and> counter (snd (calls (count_calls (\<lambda>r a. (Inl (Raised ''boom'') :: exn + unit, r)) ''f'')
                  \<lparr>db = (\<lambda>k. None), clock = 0\<rparr> [(), ()])) ''f'' = Some 2"
proof -
  have frame: "\<And>r a. db (snd ((\<lambda>r a. (Inl (Raised ''boom'') :: exn + unit, r)) r (a :: unit))) ''f'' = db r ''f''"
    by simp
  have fresh: "lookup \<lparr>db = (\<lambda>k. None), clock = 0\<rparr> ''f'' = None"
    by (simp add: lookup_def)
  show ?thesis
    using fresh count_calls_counter [of "\<lambda>r a. (Inl (Raised ''boom'') :: exn + unit, r)" "''f''", OF frame fresh, of "[(), ()]" "()"]
    by simp
qed

text \<open>
  C4, as stated for every operation, fails for a counted operation that writes the
  store itself: one that makes a new \<open>Cache\<close>, which flushes the store, has returned
  twice and its counter reads 0, not 2.
\<close>

theorem count_calls_flushing_operation:
  "counter (snd (calls (count_calls (\<lambda>r (a :: unit). (Inr () :: exn + unit, Cache_init r)) ''f'')
                  \<lparr>db = (\<lambda>k. None), clock = 0\<rparr> [(), ()])) ''f'' = Some 0
   \<and> counter (snd (calls (count_calls (\<lambda>r (a :: unit). (Inr () :: exn + unit, Cache_init r)) ''f'')
                  \<lparr>db = (\<lambda>k. None), clock = 0\<rparr> [(), ()])) ''f'' \<noteq> Some (int (length [(), ()]))"
  by (simp add: count_calls_def redis_incr_def counter_def lookup_def expiry_def Cache_init_def
      redis_flushdb_def Let_def)

section \<open>Generated keys\<close>

lemma hex_digit_chars: "hex_digit d \<in> set ''0123456789abcdef''"
  unfolding hex_digit_def by (rule nth_mem) simp

lemma hex32_chars: "c \<in> set (hex32 n) \<Longrightarrow> c \<in> set ''0123456789abcdef''"
  using hex_digit_chars by (auto simp: hex32_def)

lemma length_hex32: "length (hex32 n) = 32"
  by (simp add: hex32_def)

lemma length_str_uuid: "length (str_uuid u) = 36"
  by (simp add: str_uuid_def Let_def length_hex32)

lemma in_take_drop: "c \<in> set (take n (drop m xs)) \<Longrightarrow> c \<in> set xs"
  by (blast dest: in_set_takeD in_set_dropD)

lemma str_uuid_chars:
  assumes "c \<in> set (str_uuid u)"
  shows "c \<in> set ''0123456789abcdef-''"
proof -
  define h where "h = hex32 (unat u)"
  have s: "str_uuid u = take 8 h @ ''-'' @ take 4 (drop 8 h) @ ''-'' @ take 4 (drop 12 h) @ ''-''
           @ take 4 (drop 16 h) @ ''-'' @ drop 20 h"
    by (simp add: str_uuid_def h_def Let_def)
  from assms have "c \<in> set (take 8 h) \<or> c \<in> set (take 4 (drop 8 h)) \<or> c \<in> set (take 4 (drop 12 h))
      \<or> c \<in> set (take 4 (drop 16 h)) \<or> c \<in> set (drop 20 h) \<or> c = CHR ''-''"
    unfolding s by auto
  then have "c \<in> set h \<or> c = CHR ''-''"
    by (blast dest: in_set_takeD in_set_dropD in_take_drop)
  then have "c \<in> set ''0123456789abcdef'' \<or> c = CHR ''-''"
    using hex32_chars [of c "unat u"] unfolding h_def by blast
  then show ?thesis by auto
qed

lemma str_uuid_no_colon: "CHR '':'' \<notin> set (str_uuid u)"
proof
  assume "CHR '':'' \<in> set (str_uuid u)"
  then have "CHR '':'' \<in> set ''0123456789abcdef-''" by (rule str_uuid_chars)
  then show False by simp
qed

lemma str_uuid_not_counter: "str_uuid u \<noteq> ''Cache.store''"
proof
  assume "str_uuid u = ''Cache.store''"
  then have "length (str_uuid u) = length ''Cache.store''" by simp
  then show False by (simp add: length_str_uuid)
qed

section \<open>Storing and reading back\<close>

lemma Cache_store_result:
  assumes "counter r ''Cache.store'' = Some c" and "encode frepr v = Inr b"
  shows "Cache_store frepr r (u, v)
     = (Inr (PText (str_uuid u)),
        redis_set (r\<lparr>db := (db r)(''Cache.store'' \<mapsto> (RString (show_int (c + 1)), expiry r ''Cache.store''))\<rparr>) (str_uuid u) b)"
  using assms by (simp add: Cache_store_def count_calls_def redis_incr_def store_raw_def Let_def)

lemma lookup_redis_set: "lookup (elapse d (redis_set r k b)) k = Some (RString b)"
  by (simp add: lookup_def elapse_def redis_set_def)

text \<open>
  C2, as the code has it. When the counter of \<open>store\<close> can be incremented and the
  client encodes the value \<open>v\<close> (text, bytes, integer or float) to the bytes \<open>b\<close>,
  \<open>store\<close> returns the generated key, and \<open>get\<close> of that key, at any later time,
  returns the bytes \<open>b\<close>: \<open>v\<close> itself when \<open>v\<close> is bytes, the UTF-8 bytes of a text,
  the decimal \<open>repr\<close> of an integer or a float. A coercion function is applied to
  \<open>b\<close>. The result equals \<open>v\<close> exactly when \<open>v\<close> is bytes.
\<close>

theorem store_get_raw:
  assumes "counter r ''Cache.store'' = Some c" and "encode frepr (v :: 'f pyval) = Inr b"
  shows "fst (Cache_store frepr r (u, v)) = Inr (PText (str_uuid u))
       \<and> Cache_get (elapse d (snd (Cache_store frepr r (u, v)))) (str_uuid u) None
           = (Inr (PBytes b) :: exn + 'f pyval)
       \<and> Cache_get (elapse d (snd (Cache_store frepr r (u, v)))) (str_uuid u) (Some fn)
           = (fn b :: exn + 'f pyval)
       \<and> ((Cache_get (elapse d (snd (Cache_store frepr r (u, v)))) (str_uuid u) None = Inr v) = (v = PBytes b))"
  using assms
  by (auto simp add: Cache_store_result Cache_get_def redis_get_def lookup_redis_set)

theorem store_get_raw_witness:
  "counter \<lparr>db = (\<lambda>k. None), clock = 0\<rparr> ''Cache.store'' = Some 0
   \<and> encode (\<lambda>x :: unit. ''0.0'') (PText ''hello'') = Inr ''hello''
   \<and> Cache_get (elapse 7 (snd (Cache_store (\<lambda>x :: unit. ''0.0'') \<lparr>db = (\<lambda>k. None), clock = 0\<rparr> (5, PText ''hello''))))
        (str_uuid 5) None = Inr (PBytes ''hello'' :: unit pyval)"
proof -
  have c: "counter \<lparr>db = (\<lambda>k. None), clock = 0\<rparr> ''Cache.store'' = Some 0"
    by (simp add: counter_def lookup_def)
  have e: "encode (\<lambda>x :: unit. ''0.0'') (PText ''hello'') = Inr ''hello''"
    by simp
  show ?thesis using c e store_get_raw [OF c e, where u = 5 and d = 7 and fn = "\<lambda>d. Inr PNone"] by simp
qed

text \<open>
  C2, as stated, fails for an integer: after \<open>store(42)\<close> on a new \<open>Cache\<close>,
  \<open>get\<close> of the returned key is not the integer 42 (it is the bytes \<open>b"42"\<close>).
\<close>

theorem store_get_not_identity:
  "Cache_get (snd (Cache_store (\<lambda>x :: unit. ''0.0'') (Cache_init \<lparr>db = (\<lambda>k. None), clock = 0\<rparr>) (5, PInt 42)))
     (str_uuid 5) None \<noteq> Inr (PInt 42 :: unit pyval)"
proof -
  have c: "counter (Cache_init \<lparr>db = (\<lambda>k. None), clock = 0\<rparr>) ''Cache.store'' = Some 0"
    by (simp add: counter_def lookup_def Cache_init_def redis_flushdb_def)
  have e: "encode (\<lambda>x :: unit. ''0.0'') (PInt 42) = Inr (show_int 42)"
    by simp
  have "Cache_get (snd (Cache_store (\<lambda>x :: unit. ''0.0'') (Cache_init \<lparr>db = (\<lambda>k. None), clock = 0\<rparr>) (5, PInt 42)))
     (str_uuid 5) None = Inr (PBytes (show_int 42) :: unit pyval)"
    by (simp add: Cache_store_result [OF c e] Cache_get_def redis_get_def lookup_def redis_set_def)
  then show ?thesis by simp
qed



section \<open>No history for the methods of Cache\<close>

text \<open>
  A run of calls on a new \<open>Cache\<close> writes the counter of \<open>store\<close> and the generated
  keys; none of these keys contains a colon.
\<close>

lemma colon_not_counter: "CHR '':'' \<in> set k \<Longrightarrow> k \<noteq> ''Cache.store''"
  by auto

lemma colon_not_uuid: "CHR '':'' \<in> set k \<Longrightarrow> k \<noteq> str_uuid u"
  using str_uuid_no_colon [of u] by auto

lemma cache_call_colon_keys:
  assumes "CHR '':'' \<in> set k" and "db r k = None"
  shows "db (cache_call frepr r c) k = None"
proof (cases c)
  case (Get k' fn)
  with assms show ?thesis by simp
next
  case (Store u data)
  from assms(1) have k1: "k \<noteq> ''Cache.store''" and k2: "k \<noteq> str_uuid u"
    by (rule colon_not_counter, rule colon_not_uuid)
  with assms(2) Store show ?thesis
    by (simp add: Cache_store_def count_calls_def redis_incr_def store_raw_def redis_set_def Let_def
        split: option.splits sum.splits)
qed

lemma cache_calls_colon_keys:
  "CHR '':'' \<in> set k \<Longrightarrow> db r k = None \<Longrightarrow> db (foldl (cache_call frepr) r cs) k = None"
  by (induction cs arbitrary: r) (simp_all add: cache_call_colon_keys)

lemma cache_run_colon_keys:
  "CHR '':'' \<in> set k \<Longrightarrow> db (cache_run frepr r cs) k = None"
  unfolding cache_run_def
  by (rule cache_calls_colon_keys) (simp_all add: Cache_init_def redis_flushdb_def)

lemma redis_lrange_absent: "db r k = None \<Longrightarrow> redis_lrange r k start stop = Inr []"
  by (simp add: redis_lrange_def lookup_def)

text \<open>
  C10. \<open>Cache.store\<close> is \<open>store_raw\<close> under \<open>count_calls\<close> alone, and \<open>get\<close> writes
  nothing. So after any run of \<open>store\<close> and \<open>get\<close> calls on a new \<open>Cache\<close>, the lists
  \<open>Cache.store:inputs\<close> and \<open>Cache.store:outputs\<close> are empty, and so are the two lists
  of any other identity: no method of the class has a history.
\<close>

theorem store_history_empty:
  "redis_lrange (cache_run frepr r cs) (qualname @ '':inputs'') 0 (- 1) = Inr []
   \<and> redis_lrange (cache_run frepr r cs) (qualname @ '':outputs'') 0 (- 1) = Inr []"
  by (simp add: redis_lrange_absent cache_run_colon_keys)

section \<open>The memoizing fetcher\<close>

text \<open>
  What one call of \<open>get_page\<close> returns and leaves behind, when the cached value is
  served (\<open>get_page_hit\<close>) and when the page is requested (\<open>get_page_miss\<close>).
\<close>

lemma redis_get_other [simp]:
  "k' \<noteq> k \<Longrightarrow> redis_get (r\<lparr>db := (db r)(k \<mapsto> x)\<rparr>) k' = redis_get r k'"
  by (simp add: redis_get_def)

lemma redis_incr_counter:
  "counter r k = Some c \<Longrightarrow>
     redis_incr r k = Inr (c + 1, r\<lparr>db := (db r)(k \<mapsto> (RString (show_int (c + 1)), expiry r k))\<rparr>)"
  by (simp add: redis_incr_def)

lemma get_page_hit:
  assumes cnt: "counter (redis_client w) (''count:'' @ url) = Some c"
    and hit: "redis_get (redis_client w) (''cache:'' @ url) = Inr (Some s)" "s \<noteq> []"
  shows "get_page http w url =
     (Inr s, w\<lparr>redis_client := (redis_client w)\<lparr>db := (db (redis_client w))
         (''count:'' @ url \<mapsto> (RString (show_int (c + 1)), expiry (redis_client w) (''count:'' @ url)))\<rparr>\<rparr>)"
  using cnt hit by (simp add: get_page_def cache_and_count_access_def redis_incr_def Let_def)

lemma get_page_miss:
  assumes cnt: "counter (redis_client w) (''count:'' @ url) = Some c"
    and miss: "redis_get (redis_client w) (''cache:'' @ url) = Inr None
             \<or> redis_get (redis_client w) (''cache:'' @ url) = Inr (Some [])"
    and r1: "r1 = elapse (fst (http url)) ((redis_client w)\<lparr>db := (db (redis_client w))
         (''count:'' @ url \<mapsto> (RString (show_int (c + 1)), expiry (redis_client w) (''count:'' @ url)))\<rparr>)"
  shows "get_page http w url =
     (case snd (http url) of
        Inl e \<Rightarrow> (Inl e, \<lparr>redis_client = r1, requests = requests w @ [url]\<rparr>)
      | Inr body \<Rightarrow>
          (Inr body, \<lparr>redis_client = r1\<lparr>db := (db r1)(''cache:'' @ url \<mapsto> (RString body, Some (clock r1 + 10)))\<rparr>,
                       requests = requests w @ [url]\<rparr>))"
  using cnt miss
  by (auto simp add: get_page_def cache_and_count_access_def redis_incr_def Let_def
      get_page_raw_def redis_setex_def r1 split: sum.splits)


lemma redis_get_absent: "lookup r k = None \<Longrightarrow> redis_get r k = Inr None"
  by (simp add: redis_get_def)

lemma counter_after_incr:
  "db r k = Some (RString (show_int n), t) \<Longrightarrow> counter r k = Some n \<or> counter r k = Some 0"
  by (cases t) (simp_all add: counter_def lookup_def parse_int_show_int)

lemma get_page_miss_requests:
  assumes "counter (redis_client w) (''count:'' @ url) = Some c"
    and "redis_get (redis_client w) (''cache:'' @ url) = Inr None
       \<or> redis_get (redis_client w) (''cache:'' @ url) = Inr (Some [])"
  shows "requests (snd (get_page http w url)) = requests w @ [url]"
  by (simp add: get_page_miss [OF assms refl] split: sum.splits)

lemma get_page_miss_state:
  assumes cnt: "counter (redis_client w) (''count:'' @ url) = Some c"
    and miss: "redis_get (redis_client w) (''cache:'' @ url) = Inr None
       \<or> redis_get (redis_client w) (''cache:'' @ url) = Inr (Some [])"
    and ok: "snd (http url) = Inr body"
  shows "fst (get_page http w url) = Inr body"
    and "db (redis_client (snd (get_page http w url))) (''cache:'' @ url)
       = Some (RString body, Some (clock (redis_client (snd (get_page http w url))) + 10))"
    and "db (redis_client (snd (get_page http w url))) (''count:'' @ url)
       = Some (RString (show_int (c + 1)), expiry (redis_client w) (''count:'' @ url))"
    and "clock (redis_client (snd (get_page http w url))) = clock (redis_client w) + fst (http url)"
  by (simp_all add: get_page_miss [OF cnt miss refl] ok elapse_def)

text \<open>
  C6. Let the access counter be incrementable and the cache key hold nothing (never
  written, or expired). If the request raises \<open>e\<close>, \<open>get_page\<close> raises the same
  \<open>e\<close>, the entry of the cache key is what it was, the access counter holds its old
  value plus one, and the request was made once.
\<close>

theorem get_page_failure:
  assumes cnt: "counter (redis_client w) (''count:'' @ url) = Some c"
    and miss: "lookup (redis_client w) (''cache:'' @ url) = None"
    and fail: "snd (http url) = Inl e"
  shows "fst (get_page http w url) = Inl e
     \<and> db (redis_client (snd (get_page http w url))) (''cache:'' @ url)
         = db (redis_client w) (''cache:'' @ url)
     \<and> (\<exists>t. db (redis_client (snd (get_page http w url))) (''count:'' @ url)
              = Some (RString (show_int (c + 1)), t))
     \<and> requests (snd (get_page http w url)) = requests w @ [url]"
proof -
  from miss have "redis_get (redis_client w) (''cache:'' @ url) = Inr None
       \<or> redis_get (redis_client w) (''cache:'' @ url) = Inr (Some [])"
    by (simp add: redis_get_absent)
  from get_page_miss [OF cnt this refl, of http] fail show ?thesis
    by (simp add: elapse_def)
qed

theorem get_page_failure_witness:
  "counter (redis_client \<lparr>redis_client = \<lparr>db = (\<lambda>k. None), clock = 0\<rparr>, requests = []\<rparr>) (''count:'' @ ''u'') = Some 0
   \<and> lookup (redis_client \<lparr>redis_client = \<lparr>db = (\<lambda>k. None), clock = 0\<rparr>, requests = []\<rparr>) (''cache:'' @ ''u'') = None
   \<and> snd ((\<lambda>u :: string. (3 :: nat, Inl (Raised ''ConnectionError'') :: exn + string)) ''u'') = Inl (Raised ''ConnectionError'')
   \<and> fst (get_page (\<lambda>u. (3, Inl (Raised ''ConnectionError'')))
             \<lparr>redis_client = \<lparr>db = (\<lambda>k. None), clock = 0\<rparr>, requests = []\<rparr> ''u'') = Inl (Raised ''ConnectionError'')
   \<and> requests (snd (get_page (\<lambda>u. (3, Inl (Raised ''ConnectionError'')))
             \<lparr>redis_client = \<lparr>db = (\<lambda>k. None), clock = 0\<rparr>, requests = []\<rparr> ''u'')) = [''u'']"
proof -
  have cnt: "counter (redis_client \<lparr>redis_client = \<lparr>db = (\<lambda>k. None), clock = 0\<rparr>, requests = []\<rparr>) (''count:'' @ ''u'') = Some 0"
    by (simp add: counter_def lookup_def)
  have miss: "lookup (redis_client \<lparr>redis_client = \<lparr>db = (\<lambda>k. None), clock = 0\<rparr>, requests = []\<rparr>) (''cache:'' @ ''u'') = None"
    by (simp add: lookup_def)
  have fail: "snd ((\<lambda>u :: string. (3 :: nat, Inl (Raised ''ConnectionError'') :: exn + string)) ''u'') = Inl (Raised ''ConnectionError'')"
    by simp
  show ?thesis
    using cnt miss get_page_failure [where http = "\<lambda>u. (3, Inl (Raised ''ConnectionError''))", OF cnt miss fail]
    by simp
qed

text \<open>
  C7. A page fetched on a miss is stored under the cache key with an expiry 10 seconds
  after the time of the write. Less than 10 seconds later the key reads as the page;
  more than 10 seconds later it reads as absent, and a call then requests the page
  again.
\<close>

theorem get_page_ttl:
  assumes cnt: "counter (redis_client w) (''count:'' @ url) = Some c"
    and miss: "lookup (redis_client w) (''cache:'' @ url) = None"
    and ok: "snd (http url) = Inr body"
    and early: "d' < 10"
    and late: "10 < d"
  shows "db (redis_client (snd (get_page http w url))) (''cache:'' @ url)
         = Some (RString body, Some (clock (redis_client (snd (get_page http w url))) + 10))
     \<and> redis_get (redis_client (wait d' (snd (get_page http w url)))) (''cache:'' @ url) = Inr (Some body)
     \<and> redis_get (redis_client (wait d (snd (get_page http w url)))) (''cache:'' @ url) = Inr None
     \<and> requests (snd (get_page http' (wait d (snd (get_page http w url))) url)) = requests w @ [url, url]"
proof -
  let ?w1 = "snd (get_page http w url)"
  from miss have m: "redis_get (redis_client w) (''cache:'' @ url) = Inr None
       \<or> redis_get (redis_client w) (''cache:'' @ url) = Inr (Some [])"
    by (simp add: redis_get_absent)
  note st = get_page_miss_state [where http = http, OF cnt m ok]
  have a: "db (redis_client ?w1) (''cache:'' @ url)
         = Some (RString body, Some (clock (redis_client ?w1) + 10))"
    by (rule st(2))
  have b: "redis_get (redis_client (wait d' ?w1)) (''cache:'' @ url) = Inr (Some body)"
    using early a by (simp add: wait_def elapse_def redis_get_def lookup_def)
  have c: "redis_get (redis_client (wait d ?w1)) (''cache:'' @ url) = Inr None"
    using late a by (simp add: wait_def elapse_def redis_get_def lookup_def)
  have "db (redis_client (wait d ?w1)) (''count:'' @ url)
       = Some (RString (show_int (c + 1)), expiry (redis_client w) (''count:'' @ url))"
    using st(3) by (simp add: wait_def elapse_def)
  then have "counter (redis_client (wait d ?w1)) (''count:'' @ url) = Some (c + 1)
      \<or> counter (redis_client (wait d ?w1)) (''count:'' @ url) = Some 0"
    by (rule counter_after_incr)
  then have "requests (snd (get_page http' (wait d ?w1) url)) = requests (wait d ?w1) @ [url]"
    using c by (auto intro: get_page_miss_requests)
  moreover have "requests (wait d ?w1) = requests w @ [url]"
    using get_page_miss_requests [OF cnt m, of http] by (simp add: wait_def)
  ultimately have "requests (snd (get_page http' (wait d ?w1) url)) = requests w @ [url, url]"
    by simp
  with a b c show ?thesis by simp
qed

theorem get_page_ttl_witness:
  "counter (redis_client \<lparr>redis_client = \<lparr>db = (\<lambda>k. None), clock = 0\<rparr>, requests = []\<rparr>) (''count:'' @ ''u'') = Some 0
   \<and> lookup (redis_client \<lparr>redis_client = \<lparr>db = (\<lambda>k. None), clock = 0\<rparr>, requests = []\<rparr>) (''cache:'' @ ''u'') = None
   \<and> snd ((\<lambda>u :: string. (2 :: nat, Inr ''page'' :: exn + string)) ''u'') = Inr ''page''
   \<and> (9 :: nat) < 10 \<and> (10 :: nat) < 11
   \<and> redis_get (redis_client (wait 9 (snd (get_page (\<lambda>u. (2, Inr ''page''))
         \<lparr>redis_client = \<lparr>db = (\<lambda>k. None), clock = 0\<rparr>, requests = []\<rparr> ''u'')))) (''cache:'' @ ''u'') = Inr (Some ''page'')
   \<and> redis_get (redis_client (wait 11 (snd (get_page (\<lambda>u. (2, Inr ''page''))
         \<lparr>redis_client = \<lparr>db = (\<lambda>k. None), clock = 0\<rparr>, requests = []\<rparr> ''u'')))) (''cache:'' @ ''u'') = Inr None
   \<and> requests (snd (get_page (\<lambda>u. (2, Inr ''page'')) (wait 11 (snd (get_page (\<lambda>u. (2, Inr ''page''))
         \<lparr>redis_client = \<lparr>db = (\<lambda>k. None), clock = 0\<rparr>, requests = []\<rparr> ''u''))) ''u'')) = [''u'', ''u'']"
proof -
  have cnt: "counter (redis_client \<lparr>redis_client = \<lparr>db = (\<lambda>k. None), clock = 0\<rparr>, requests = []\<rparr>) (''count:'' @ ''u'') = Some 0"
    by (simp add: counter_def lookup_def)
  have miss: "lookup (redis_client \<lparr>redis_client = \<lparr>db = (\<lambda>k. None), clock = 0\<rparr>, requests = []\<rparr>) (''cache:'' @ ''u'') = None"
    by (simp add: lookup_def)
  have ok: "snd ((\<lambda>u :: string. (2 :: nat, Inr ''page'' :: exn + string)) ''u'') = Inr ''page''"
    by simp
  have early: "(9 :: nat) < 10" and late: "(10 :: nat) < 11"
    by simp_all
  show ?thesis
    using cnt miss get_page_ttl [where http = "\<lambda>u. (2, Inr ''page'')" and http' = "\<lambda>u. (2, Inr ''page'')", OF cnt miss ok early late]
    by simp
qed

text \<open>
  C9. With a value \<open>s\<close> readable under the cache key, a call makes no request exactly
  when \<open>s\<close> is not empty. When \<open>s\<close> is the empty string the call requests the page,
  returns the new text and writes it under the cache key with a new expiry.
\<close>

theorem get_page_falsy_cached:
  assumes cnt: "counter (redis_client w) (''count:'' @ url) = Some c"
    and cached: "redis_get (redis_client w) (''cache:'' @ url) = Inr (Some s)"
    and ok: "snd (http url) = Inr body"
  shows "((requests (snd (get_page http w url)) = requests w) = (s \<noteq> []))
     \<and> (s = [] \<longrightarrow>
          fst (get_page http w url) = Inr body
        \<and> requests (snd (get_page http w url)) = requests w @ [url]
        \<and> db (redis_client (snd (get_page http w url))) (''cache:'' @ url)
            = Some (RString body, Some (clock (redis_client (snd (get_page http w url))) + 10)))"
proof (cases "s = []")
  case True
  with cached have m: "redis_get (redis_client w) (''cache:'' @ url) = Inr None
       \<or> redis_get (redis_client w) (''cache:'' @ url) = Inr (Some [])"
    by simp
  from get_page_miss_state [where http = http, OF cnt m ok] get_page_miss_requests [OF cnt m, of http] True
  show ?thesis by simp
next
  case False
  with get_page_hit [OF cnt cached, of http] show ?thesis by simp
qed


theorem get_page_falsy_cached_witness:
  "counter (redis_client \<lparr>redis_client = \<lparr>db = (\<lambda>k. None)(''cache:u'' \<mapsto> (RString [], Some 10)), clock = 4\<rparr>, requests = []\<rparr>)
       (''count:'' @ ''u'') = Some 0
   \<and> redis_get (redis_client \<lparr>redis_client = \<lparr>db = (\<lambda>k. None)(''cache:u'' \<mapsto> (RString [], Some 10)), clock = 4\<rparr>, requests = []\<rparr>)
       (''cache:'' @ ''u'') = Inr (Some [])
   \<and> snd ((\<lambda>u :: string. (2 :: nat, Inr ''page'' :: exn + string)) ''u'') = Inr ''page''
   \<and> ([] :: string) = []
   \<and> fst (get_page (\<lambda>u. (2, Inr ''page''))
         \<lparr>redis_client = \<lparr>db = (\<lambda>k. None)(''cache:u'' \<mapsto> (RString [], Some 10)), clock = 4\<rparr>, requests = []\<rparr> ''u'') = Inr ''page''
   \<and> requests (snd (get_page (\<lambda>u. (2, Inr ''page''))
         \<lparr>redis_client = \<lparr>db = (\<lambda>k. None)(''cache:u'' \<mapsto> (RString [], Some 10)), clock = 4\<rparr>, requests = []\<rparr> ''u'')) = [''u'']"
proof -
  have cnt: "counter (redis_client \<lparr>redis_client = \<lparr>db = (\<lambda>k. None)(''cache:u'' \<mapsto> (RString [], Some 10)), clock = 4\<rparr>, requests = []\<rparr>)
       (''count:'' @ ''u'') = Some 0"
    by (simp add: counter_def lookup_def)
  have cached: "redis_get (redis_client \<lparr>redis_client = \<lparr>db = (\<lambda>k. None)(''cache:u'' \<mapsto> (RString [], Some 10)), clock = 4\<rparr>, requests = []\<rparr>)
       (''cache:'' @ ''u'') = Inr (Some [])"
    by (simp add: redis_get_def lookup_def)
  have ok: "snd ((\<lambda>u :: string. (2 :: nat, Inr ''page'' :: exn + string)) ''u'') = Inr ''page''"
    by simp
  show ?thesis
    using cnt cached get_page_falsy_cached [where http = "\<lambda>u. (2, Inr ''page'')", OF cnt cached ok]
    by simp
qed

text \<open>
  Two calls for the same URL, the second less than 10 seconds after the first. When the
  page is not empty the second call is served from the cache; when it is empty the
  request is made twice.
\<close>

lemma get_page_twice_cached:
  assumes fresh: "lookup (redis_client w) (''count:'' @ url) = None"
    and miss: "lookup (redis_client w) (''cache:'' @ url) = None"
    and ok: "snd (http url) = Inr body"
    and nonempty: "body \<noteq> []"
    and early: "d < 10"
  shows "fst (get_page http' (wait d (snd (get_page http w url))) url) = Inr body
     \<and> requests (snd (get_page http' (wait d (snd (get_page http w url))) url)) = requests w @ [url]
     \<and> redis_get (redis_client (snd (get_page http' (wait d (snd (get_page http w url))) url)))
           (''count:'' @ url) = Inr (Some (show_int 2))"
proof -
  let ?w1 = "snd (get_page http w url)"
  let ?w1' = "wait d ?w1"
  from fresh have cnt: "counter (redis_client w) (''count:'' @ url) = Some 0"
    by (rule counter_absent)
  from miss have m: "redis_get (redis_client w) (''cache:'' @ url) = Inr None
       \<or> redis_get (redis_client w) (''cache:'' @ url) = Inr (Some [])"
    by (simp add: redis_get_absent)
  note st = get_page_miss_state [where http = http, OF cnt m ok]
  have hit: "redis_get (redis_client ?w1') (''cache:'' @ url) = Inr (Some body)"
    using early st(2) by (simp add: wait_def elapse_def redis_get_def lookup_def)
  have d1: "db (redis_client ?w1') (''count:'' @ url) = Some (RString (show_int 1), None)"
    using st(3) expiry_absent [OF fresh] by (simp add: wait_def elapse_def)
  then have cnt1: "counter (redis_client ?w1') (''count:'' @ url) = Some 1"
    by (rule counter_stored)
  have e1: "expiry (redis_client ?w1') (''count:'' @ url) = None"
    using d1 by (rule expiry_no_expiry)
  have rq: "requests ?w1' = requests w @ [url]"
    using get_page_miss_requests [OF cnt m, of http] by (simp add: wait_def)
  show ?thesis
    using e1 rq
    by (simp add: get_page_hit [OF cnt1 hit nonempty] redis_get_def)
qed

lemma get_page_twice_falsy:
  assumes cnt: "counter (redis_client w) (''count:'' @ url) = Some c"
    and miss: "lookup (redis_client w) (''cache:'' @ url) = None"
    and ok: "snd (http url) = Inr []"
  shows "requests (snd (get_page http' (wait d (snd (get_page http w url))) url)) = requests w @ [url, url]"
proof -
  let ?w1 = "snd (get_page http w url)"
  let ?w1' = "wait d ?w1"
  from miss have m: "redis_get (redis_client w) (''cache:'' @ url) = Inr None
       \<or> redis_get (redis_client w) (''cache:'' @ url) = Inr (Some [])"
    by (simp add: redis_get_absent)
  note st = get_page_miss_state [where http = http, OF cnt m ok]
  have m1: "redis_get (redis_client ?w1') (''cache:'' @ url) = Inr None
       \<or> redis_get (redis_client ?w1') (''cache:'' @ url) = Inr (Some [])"
    using st(2) by (simp add: wait_def elapse_def redis_get_def lookup_def)
  have "db (redis_client ?w1') (''count:'' @ url)
       = Some (RString (show_int (c + 1)), expiry (redis_client w) (''count:'' @ url))"
    using st(3) by (simp add: wait_def elapse_def)
  then have "counter (redis_client ?w1') (''count:'' @ url) = Some (c + 1)
      \<or> counter (redis_client ?w1') (''count:'' @ url) = Some 0"
    by (rule counter_after_incr)
  then have "requests (snd (get_page http' ?w1' url)) = requests ?w1' @ [url]"
    using m1 by (auto intro: get_page_miss_requests)
  moreover have "requests ?w1' = requests w @ [url]"
    using get_page_miss_requests [OF cnt m, of http] by (simp add: wait_def)
  ultimately show ?thesis by simp
qed

text \<open>
  C1 at a URL whose page is empty: on a fresh store, two calls one second apart make
  the request twice, where the claim says once.
\<close>

theorem get_page_twice_empty_body:
  "requests (snd (get_page (\<lambda>u. (0, Inr []))
      (wait 1 (snd (get_page (\<lambda>u. (0, Inr []))
         \<lparr>redis_client = \<lparr>db = (\<lambda>k. None), clock = 0\<rparr>, requests = []\<rparr> ''http://example.com'')))
      ''http://example.com''))
   = [''http://example.com'', ''http://example.com'']"
proof -
  have cnt: "counter (redis_client \<lparr>redis_client = \<lparr>db = (\<lambda>k. None), clock = 0\<rparr>, requests = []\<rparr>)
      (''count:'' @ ''http://example.com'') = Some 0"
    by (simp add: counter_def lookup_def)
  have miss: "lookup (redis_client \<lparr>redis_client = \<lparr>db = (\<lambda>k. None), clock = 0\<rparr>, requests = []\<rparr>)
      (''cache:'' @ ''http://example.com'') = None"
    by (simp add: lookup_def)
  have ok: "snd ((\<lambda>u :: string. (0 :: nat, Inr [] :: exn + string)) ''http://example.com'') = Inr []"
    by simp
  from get_page_twice_falsy [where http = "\<lambda>u. (0, Inr [])" and http' = "\<lambda>u. (0, Inr [])" and d = 1, OF cnt miss ok]
  show ?thesis by simp
qed


section \<open>The history recorder\<close>

text \<open>
  A log that was never written is an absent key; a log with entries is a list without
  expiry. Both cases read as the list and take one more entry at the end.
\<close>

lemma list_range_all: "list_range xs 0 (- 1) = xs"
  by (cases xs) (simp_all add: list_range_def Let_def)

lemma redis_lrange_log:
  "db r k = (if xs = [] then None else Some (RList xs, None)) \<Longrightarrow> redis_lrange r k 0 (- 1) = Inr xs"
  by (simp add: redis_lrange_def lookup_def list_range_all split: if_splits)

lemma redis_rpush_log:
  "db r k = (if xs = [] then None else Some (RList xs, None)) \<Longrightarrow>
     redis_rpush r k b = Inr (length xs + 1, r\<lparr>db := (db r)(k \<mapsto> (RList (xs @ [b]), None))\<rparr>)"
  by (cases "xs = []") (simp_all add: redis_rpush_def lookup_def expiry_def)

lemma call_history_log:
  assumes frame: "\<And>r a. db (snd (m r a)) (qualname @ '':outputs'') = db r (qualname @ '':outputs'')"
    and li: "db r (qualname @ '':inputs'') = (if ins = [] then None else Some (RList ins, None))"
    and lo: "db r (qualname @ '':outputs'') = (if bs = [] then None else Some (RList bs, None))"
    and r1: "r1 = r\<lparr>db := (db r)(qualname @ '':inputs'' \<mapsto> (RList (ins @ [str_args a]), None))\<rparr>"
  shows "call_history str_args frepr m qualname r a =
     (case m r1 a of
        (Inl e, r2) \<Rightarrow> (Inl e, r2)
      | (Inr out, r2) \<Rightarrow>
          (case encode frepr out of
             Inl e \<Rightarrow> (Inl e, r2)
           | Inr b \<Rightarrow> (Inr out, r2\<lparr>db := (db r2)(qualname @ '':outputs'' \<mapsto> (RList (bs @ [b]), None))\<rparr>)))"
proof -
  obtain x r2 where mr: "m r1 a = (x, r2)" by (cases "m r1 a")
  have "db r2 (qualname @ '':outputs'') = db r1 (qualname @ '':outputs'')"
    using frame [of r1 a] mr by simp
  also have "\<dots> = db r (qualname @ '':outputs'')"
    by (simp add: r1)
  finally have lo2: "db r2 (qualname @ '':outputs'') = (if bs = [] then None else Some (RList bs, None))"
    using lo by simp
  show ?thesis
    by (simp add: call_history_def Let_def redis_rpush_log [OF li] r1 [symmetric] mr
        redis_rpush_log [OF lo2] split: sum.splits)
qed

lemma call_history_success:
  assumes frame_i: "\<And>r a. db (snd (m r a)) (qualname @ '':inputs'') = db r (qualname @ '':inputs'')"
    and frame_o: "\<And>r a. db (snd (m r a)) (qualname @ '':outputs'') = db r (qualname @ '':outputs'')"
    and li: "db r (qualname @ '':inputs'') = (if ins = [] then None else Some (RList ins, None))"
    and lo: "db r (qualname @ '':outputs'') = (if bs = [] then None else Some (RList bs, None))"
    and ok: "call_history str_args frepr m qualname r a = (Inr out, r')"
  shows "\<exists>b. encode frepr out = Inr b
     \<and> db r' (qualname @ '':inputs'') = Some (RList (ins @ [str_args a]), None)
     \<and> db r' (qualname @ '':outputs'') = Some (RList (bs @ [b]), None)"
proof -
  let ?r1 = "r\<lparr>db := (db r)(qualname @ '':inputs'' \<mapsto> (RList (ins @ [str_args a]), None))\<rparr>"
  obtain x r2 where mr: "m ?r1 a = (x, r2)" by (cases "m ?r1 a")
  have "db r2 (qualname @ '':inputs'') = db ?r1 (qualname @ '':inputs'')"
    using frame_i [of ?r1 a] mr by simp
  then have i2: "db r2 (qualname @ '':inputs'') = Some (RList (ins @ [str_args a]), None)"
    by simp
  from ok call_history_log [where m = m and str_args = str_args and a = a and frepr = frepr, OF frame_o li lo refl] mr i2
  show ?thesis
    by (auto split: sum.splits)
qed

lemma calls_history_logs:
  assumes frame_i: "\<And>r a. db (snd (m r a)) (qualname @ '':inputs'') = db r (qualname @ '':inputs'')"
    and frame_o: "\<And>r a. db (snd (m r a)) (qualname @ '':outputs'') = db r (qualname @ '':outputs'')"
  shows "db r (qualname @ '':inputs'') = (if ins = [] then None else Some (RList ins, None)) \<Longrightarrow>
     db r (qualname @ '':outputs'') = (if bs = [] then None else Some (RList bs, None)) \<Longrightarrow>
     fst (calls (call_history str_args frepr m qualname) r as) = map Inr outs \<Longrightarrow>
     \<exists>cs. map (encode frepr) outs = map Inr cs
       \<and> db (snd (calls (call_history str_args frepr m qualname) r as)) (qualname @ '':inputs'')
           = (if ins @ map str_args as = [] then None else Some (RList (ins @ map str_args as), None))
       \<and> db (snd (calls (call_history str_args frepr m qualname) r as)) (qualname @ '':outputs'')
           = (if bs @ cs = [] then None else Some (RList (bs @ cs), None))"
proof (induction as arbitrary: r ins bs outs)
  case Nil
  then show ?case by simp
next
  case (Cons a as)
  obtain x r' where c1: "call_history str_args frepr m qualname r a = (x, r')"
    by (cases "call_history str_args frepr m qualname r a")
  from Cons.prems(3) c1 obtain out outs' where outs: "outs = out # outs'" and x: "x = Inr out"
    and rest: "fst (calls (call_history str_args frepr m qualname) r' as) = map Inr outs'"
    by (cases outs) (auto simp: split_beta)
  from call_history_success [OF frame_i frame_o Cons.prems(1) Cons.prems(2) c1 [unfolded x]]
  obtain b where b: "encode frepr out = Inr b"
    and i1: "db r' (qualname @ '':inputs'') = Some (RList (ins @ [str_args a]), None)"
    and o1: "db r' (qualname @ '':outputs'') = Some (RList (bs @ [b]), None)"
    by blast
  from i1 have i1': "db r' (qualname @ '':inputs'')
      = (if ins @ [str_args a] = [] then None else Some (RList (ins @ [str_args a]), None))"
    by simp
  from o1 have o1': "db r' (qualname @ '':outputs'')
      = (if bs @ [b] = [] then None else Some (RList (bs @ [b]), None))"
    by simp
  from Cons.IH [OF i1' o1' rest] obtain cs where
    cs: "map (encode frepr) outs' = map Inr cs"
    and i2: "db (snd (calls (call_history str_args frepr m qualname) r' as)) (qualname @ '':inputs'')
           = Some (RList ((ins @ [str_args a]) @ map str_args as), None)"
    and o2: "db (snd (calls (call_history str_args frepr m qualname) r' as)) (qualname @ '':outputs'')
           = Some (RList ((bs @ [b]) @ cs), None)"
    by auto
  have "map (encode frepr) outs = map Inr (b # cs)"
    using outs b cs by simp
  moreover have "snd (calls (call_history str_args frepr m qualname) r (a # as))
      = snd (calls (call_history str_args frepr m qualname) r' as)"
    using c1 by (simp add: split_beta)
  ultimately show ?case using i2 o2
    by (intro exI [of _ "b # cs"]) simp
qed


lemma length_calls: "length (fst (calls m r as)) = length as"
  by (induction as arbitrary: r) (simp_all add: split_beta)

text \<open>
  C3, as the code has it. Take an operation that does not itself write its two log keys
  (it does not call itself through its recorded name and does not flush the store),
  wrapped by \<open>call_history\<close>, and a store in which both keys are absent. If \<open>n\<close> calls in a row
  all return, with results \<open>outs\<close>, then the inputs log is the list of the \<open>n\<close>
  serialized argument tuples in call order and the outputs log is the list of the
  \<open>n\<close> encoded results in call order: both have \<open>n\<close> entries and entry \<open>i\<close> of
  each belongs to call \<open>i\<close>. In the next call the operation runs on a store whose
  inputs log already ends with the arguments of that call and whose outputs log is not
  yet extended; the result is appended only after the operation has returned it, and
  not at all when the operation raises.
\<close>

theorem call_history_logs:
  assumes frame_i: "\<And>r a. db (snd (m r a)) (qualname @ '':inputs'') = db r (qualname @ '':inputs'')"
    and frame_o: "\<And>r a. db (snd (m r a)) (qualname @ '':outputs'') = db r (qualname @ '':outputs'')"
    and fresh_i: "db r (qualname @ '':inputs'') = None"
    and fresh_o: "db r (qualname @ '':outputs'') = None"
    and success: "fst (calls (call_history str_args frepr m qualname) r as) = map Inr outs"
  shows "\<exists>bs. map (encode frepr) outs = map Inr bs
     \<and> length bs = length as
     \<and> redis_lrange (snd (calls (call_history str_args frepr m qualname) r as))
           (qualname @ '':inputs'') 0 (- 1) = Inr (map str_args as)
     \<and> redis_lrange (snd (calls (call_history str_args frepr m qualname) r as))
           (qualname @ '':outputs'') 0 (- 1) = Inr bs
     \<and> (\<exists>r1. redis_lrange r1 (qualname @ '':inputs'') 0 (- 1) = Inr (map str_args as @ [str_args a])
            \<and> redis_lrange r1 (qualname @ '':outputs'') 0 (- 1) = Inr bs
            \<and> call_history str_args frepr m qualname
                  (snd (calls (call_history str_args frepr m qualname) r as)) a =
                (case m r1 a of
                   (Inl e, r2) \<Rightarrow> (Inl e, r2)
                 | (Inr out, r2) \<Rightarrow>
                     (case encode frepr out of
                        Inl e \<Rightarrow> (Inl e, r2)
                      | Inr b \<Rightarrow>
                          (Inr out, r2\<lparr>db := (db r2)(qualname @ '':outputs'' \<mapsto> (RList (bs @ [b]), None))\<rparr>))))"
proof -
  let ?r' = "snd (calls (call_history str_args frepr m qualname) r as)"
  from fresh_i have i0: "db r (qualname @ '':inputs'') = (if [] = [] then None else Some (RList [], None))"
    by simp
  from fresh_o have o0: "db r (qualname @ '':outputs'') = (if [] = [] then None else Some (RList [], None))"
    by simp
  from calls_history_logs [of m qualname, OF frame_i frame_o i0 o0 success]
  obtain bs where bs: "map (encode frepr) outs = map Inr bs"
    and li: "db ?r' (qualname @ '':inputs'')
           = (if map str_args as = [] then None else Some (RList (map str_args as), None))"
    and lo: "db ?r' (qualname @ '':outputs'') = (if bs = [] then None else Some (RList bs, None))"
    by auto
  have "length outs = length as"
    using length_calls [of "call_history str_args frepr m qualname" r as] success by simp
  moreover have "length outs = length bs"
    using bs by (metis length_map)
  ultimately have len: "length bs = length as" by simp
  let ?r1 = "?r'\<lparr>db := (db ?r')(qualname @ '':inputs'' \<mapsto> (RList (map str_args as @ [str_args a]), None))\<rparr>"
  have r1i: "redis_lrange ?r1 (qualname @ '':inputs'') 0 (- 1) = Inr (map str_args as @ [str_args a])"
    by (rule redis_lrange_log) simp
  have r1o: "redis_lrange ?r1 (qualname @ '':outputs'') 0 (- 1) = Inr bs"
    by (rule redis_lrange_log) (simp add: lo)
  note step = call_history_log [where m = m and str_args = str_args and a = a and frepr = frepr,
      OF frame_o li lo refl]
  from r1i r1o step have "\<exists>r1. redis_lrange r1 (qualname @ '':inputs'') 0 (- 1) = Inr (map str_args as @ [str_args a])
            \<and> redis_lrange r1 (qualname @ '':outputs'') 0 (- 1) = Inr bs
            \<and> call_history str_args frepr m qualname ?r' a =
                (case m r1 a of
                   (Inl e, r2) \<Rightarrow> (Inl e, r2)
                 | (Inr out, r2) \<Rightarrow>
                     (case encode frepr out of
                        Inl e \<Rightarrow> (Inl e, r2)
                      | Inr b \<Rightarrow>
                          (Inr out, r2\<lparr>db := (db r2)(qualname @ '':outputs'' \<mapsto> (RList (bs @ [b]), None))\<rparr>)))"
    by blast
  with bs len redis_lrange_log [OF li] redis_lrange_log [OF lo] show ?thesis
    by blast
qed

theorem call_history_logs_witness:
  "(\<forall>r a. db (snd ((\<lambda>r a. (Inr (PInt a) :: exn + unit pyval, r)) r a)) (''f'' @ '':inputs'') = db r (''f'' @ '':inputs''))
   \<and> (\<forall>r a. db (snd ((\<lambda>r a. (Inr (PInt a) :: exn + unit pyval, r)) r a)) (''f'' @ '':outputs'') = db r (''f'' @ '':outputs''))
   \<and> db \<lparr>db = (\<lambda>k. None), clock = 0\<rparr> (''f'' @ '':inputs'') = None
   \<and> db \<lparr>db = (\<lambda>k. None), clock = 0\<rparr> (''f'' @ '':outputs'') = None
   \<and> fst (calls (call_history show_int (\<lambda>x :: unit. ''0.0'') (\<lambda>r a. (Inr (PInt a), r)) ''f'')
             \<lparr>db = (\<lambda>k. None), clock = 0\<rparr> [1, 2]) = map Inr [PInt 1, PInt 2]
   \<and> redis_lrange (snd (calls (call_history show_int (\<lambda>x :: unit. ''0.0'') (\<lambda>r a. (Inr (PInt a), r)) ''f'')
             \<lparr>db = (\<lambda>k. None), clock = 0\<rparr> [1, 2])) (''f'' @ '':inputs'') 0 (- 1) = Inr [show_int 1, show_int 2]
   \<and> redis_lrange (snd (calls (call_history show_int (\<lambda>x :: unit. ''0.0'') (\<lambda>r a. (Inr (PInt a), r)) ''f'')
             \<lparr>db = (\<lambda>k. None), clock = 0\<rparr> [1, 2])) (''f'' @ '':outputs'') 0 (- 1) = Inr [show_int 1, show_int 2]"
proof -
  have frame_i: "\<And>r a. db (snd ((\<lambda>r a. (Inr (PInt a) :: exn + unit pyval, r)) r a)) (''f'' @ '':inputs'') = db r (''f'' @ '':inputs'')"
    by simp
  have frame_o: "\<And>r a. db (snd ((\<lambda>r a. (Inr (PInt a) :: exn + unit pyval, r)) r a)) (''f'' @ '':outputs'') = db r (''f'' @ '':outputs'')"
    by simp
  have fresh_i: "db \<lparr>db = (\<lambda>k. None), clock = 0\<rparr> (''f'' @ '':inputs'') = None"
    by simp
  have fresh_o: "db \<lparr>db = (\<lambda>k. None), clock = 0\<rparr> (''f'' @ '':outputs'') = None"
    by simp
  have success: "fst (calls (call_history show_int (\<lambda>x :: unit. ''0.0'') (\<lambda>r a. (Inr (PInt a), r)) ''f'')
             \<lparr>db = (\<lambda>k. None), clock = 0\<rparr> [1, 2]) = map Inr [PInt 1, PInt 2]"
    by (simp add: call_history_def redis_rpush_def lookup_def expiry_def Let_def)
  show ?thesis
    using success
      call_history_logs [where m = "\<lambda>r a. (Inr (PInt a) :: exn + unit pyval, r)" and str_args = show_int
        and frepr = "\<lambda>x :: unit. ''0.0''" and a = 3,
        OF frame_i frame_o fresh_i fresh_o success]
    by auto
qed


text \<open>
  C3, as stated for every operation, fails for a recorded operation that calls itself
  through its recorded name: \<open>f(2)\<close> calls \<open>f(1)\<close>, which returns 10, and returns 20.
  Both calls return. The inputs log is \<open>(2,)\<close>, \<open>(1,)\<close> and the outputs log is
  \<open>10\<close>, \<open>20\<close>: entry 0 of the outputs is the result of the call logged at entry 1
  of the inputs, not the encoding of the result 20 of the call logged at entry 0.
\<close>

theorem call_history_reentrant_operation:
  "fst (calls (call_history (\<lambda>a. ''('' @ show_int a @ '',)'') (\<lambda>x :: unit. ''0.0'')
          (\<lambda>r a. if a = 2
                 then (Inr (PInt 20),
                       snd (call_history (\<lambda>a. ''('' @ show_int a @ '',)'') (\<lambda>x :: unit. ''0.0'')
                              (\<lambda>r a. (Inr (PInt 10), r)) ''f'' r 1))
                 else (Inr (PInt 10), r)) ''f'')
        \<lparr>db = (\<lambda>k. None), clock = 0\<rparr> [2]) = [Inr (PInt 20)]
   \<and> redis_lrange (snd (calls (call_history (\<lambda>a. ''('' @ show_int a @ '',)'') (\<lambda>x :: unit. ''0.0'')
          (\<lambda>r a. if a = 2
                 then (Inr (PInt 20),
                       snd (call_history (\<lambda>a. ''('' @ show_int a @ '',)'') (\<lambda>x :: unit. ''0.0'')
                              (\<lambda>r a. (Inr (PInt 10), r)) ''f'' r 1))
                 else (Inr (PInt 10), r)) ''f'')
        \<lparr>db = (\<lambda>k. None), clock = 0\<rparr> [2])) ''f:inputs'' 0 (- 1) = Inr [''(2,)'', ''(1,)'']
   \<and> redis_lrange (snd (calls (call_history (\<lambda>a. ''('' @ show_int a @ '',)'') (\<lambda>x :: unit. ''0.0'')
          (\<lambda>r a. if a = 2
                 then (Inr (PInt 20),
                       snd (call_history (\<lambda>a. ''('' @ show_int a @ '',)'') (\<lambda>x :: unit. ''0.0'')
                              (\<lambda>r a. (Inr (PInt 10), r)) ''f'' r 1))
                 else (Inr (PInt 10), r)) ''f'')
        \<lparr>db = (\<lambda>k. None), clock = 0\<rparr> [2])) ''f:outputs'' 0 (- 1) = Inr [''10'', ''20'']
   \<and> encode (\<lambda>x :: unit. ''0.0'') (PInt 20) \<noteq> Inr ''10''"
  by (simp add: call_history_def redis_rpush_def redis_lrange_def list_range_def lookup_def
      expiry_def Let_def show_int_def show_nat.simps digit_char_def)

section \<open>replay\<close>

text \<open>
  With the name \<open>cache\<close> bound to a \<open>Cache\<close> whose two logs have the same length,
  whose inputs all evaluate and whose outputs all decode, \<open>replay\<close> prints the header
  with the number of calls and one line per call, pairing the logs by position.
\<close>

lemma print_calls_decoded:
  "map decode (map snd ps) = map Inr texts \<Longrightarrow>
     print_calls py_str decode qualname ps out =
       (Inr (), out @ map (\<lambda>(args, s). qualname @ py_str args @ '' -> '' @ s) (zip (map fst ps) texts))"
proof (induction ps arbitrary: out texts)
  case Nil
  then show ?case by simp
next
  case (Cons p ps)
  obtain args raw where p: "p = (args, raw)" by (cases p)
  from Cons.prems p obtain s texts' where t: "texts = s # texts'" and d: "decode raw = Inr s"
    and rest: "map decode (map snd ps) = map Inr texts'"
    by (cases texts) auto
  from Cons.IH [OF rest] show ?case
    by (simp add: p t d)
qed

lemma replay_bound:
  assumes "redis_lrange r (qualname @ '':inputs'') 0 (- 1) = Inr raw"
    and "eval_all py_eval raw = Inr inputs"
    and "redis_lrange r (qualname @ '':outputs'') 0 (- 1) = Inr outputs"
    and "length outputs = length inputs"
    and "map decode outputs = map Inr texts"
  shows "replay (Some r) py_eval py_str decode qualname =
     (Inr (),
      (qualname @ '' was called '' @ show_nat (length inputs) @ '' times:'')
        # map (\<lambda>(args, s). qualname @ py_str args @ '' -> '' @ s) (zip inputs texts))"
  using assms by (simp add: replay_def print_calls_decoded)

text \<open>
  C5 on the module as it is: \<open>replay\<close> reads the store through the name \<open>cache\<close>,
  which the module never binds. Every call of \<open>replay\<close> raises \<open>NameError\<close> before
  it reads a log, and prints nothing.
\<close>

theorem replay_unbound_cache:
  "replay module_cache py_eval py_str decode qualname = (Inl NameError, [])"
  by (simp add: replay_def module_cache_def)


end
